theory Spec2Isabelle
  imports Main "HOL-Library.Multiset" "HOL-Library.Monad_Syntax"
begin

section \<open>Data model (types.ts)\<close>

text \<open>
  The form designer keeps three aggregates in React state: the form schema (an ordered
  list of field instances), the registry of custom field types and the list of field
  libraries. Every handler replaces a whole value (\<^verbatim>\<open>setX(prev => ...)\<close> with spread
  copies); no handler mutates an object or an array that another value still refers to.
  The model therefore passes values: a handler is a function from the state before to the
  state after. Optional properties (\<^verbatim>\<open>p?: T\<close>) are \<open>option\<close> values, \<open>None\<close> standing for
  both an absent property and the value \<^verbatim>\<open>undefined\<close>.

  Strings are lists of \<open>char\<close>; identifiers, labels and names are only compared and
  copied. Numbers that index arrays are \<open>int\<close>, since \<^verbatim>\<open>findIndex\<close> answers \<open>-1\<close> and
  \<^verbatim>\<open>splice\<close> accepts negative and oversized positions.
\<close>

datatype FieldType = Text | Email | Number | Date | Textarea | Select | Checkbox

datatype RuleType = Regex | MinValue | MaxValue | MinLength | MaxLength

text \<open>
  \<^verbatim>\<open>value: string | number\<close>. The editor stores the text of the input for a regex rule
  and \<^verbatim>\<open>Number(text)\<close> for the numeric kinds; no handler modelled here computes with the
  number, it is only stored and copied.
\<close>

datatype RuleValue = StrValue string | NumValue int

record ValidationRule =
  rule_type :: RuleType
  rule_value :: RuleValue
  rule_message :: string

text \<open>
  Modelled from the spec: the \<open>parentId\<close> property of a field library. The declaration
  of \<^verbatim>\<open>FieldLibrary\<close> that is present has only \<^verbatim>\<open>id\<close>, \<^verbatim>\<open>name\<close> and \<^verbatim>\<open>description\<close>, while
  the library browser reads \<^verbatim>\<open>library.parentId\<close>; the spec gives
  \<^verbatim>\<open>{ id, name, description?, parentId? }\<close>.
\<close>

record FieldLibrary =
  lib_id :: string
  lib_name :: string
  lib_description :: "string option"
  parentId :: "string option"

record CustomFieldType =
  cft_id :: string
  cft_name :: string
  baseType :: FieldType
  icon :: string
  cft_description :: "string option"
  cft_validationRules :: "ValidationRule list"
  defaultPlaceholder :: "string option"
  libraryIds :: "string list option"

record FormField =
  field_id :: string
  field_type :: FieldType
  customFieldTypeId :: "string option"
  libraryId :: "string option"
  label :: string
  placeholder :: "string option"
  required :: bool
  multiple :: bool
  options :: "string list option"
  validationRules :: "ValidationRule list option"

record FormSchema =
  schema_id :: string
  title :: string
  description :: "string option"
  schema_fields :: "FormField list"


section \<open>JavaScript array primitives used by the handlers\<close>

text \<open>\<^verbatim>\<open>Array.prototype.findIndex\<close>: the index of the first element satisfying the
  predicate, \<open>-1\<close> when there is none.\<close>

fun findIndex :: "('a \<Rightarrow> bool) \<Rightarrow> 'a list \<Rightarrow> int" where
  "findIndex P [] = -1"
| "findIndex P (x # xs) =
     (if P x then 0 else (let r = findIndex P xs in if r = -1 then -1 else r + 1))"

text \<open>\<^verbatim>\<open>xs[i]\<close>: reading outside the array gives \<^verbatim>\<open>undefined\<close>.\<close>

definition js_index :: "'a list \<Rightarrow> int \<Rightarrow> 'a option" where
  "js_index xs i = (if 0 \<le> i \<and> i < int (length xs) then Some (xs ! nat i) else None)"

text \<open>
  \<^verbatim>\<open>xs.splice(start, deleteCount, ...items)\<close>. A negative start counts from the end and
  is clamped at 0, a start beyond the end is clamped to the length; the delete count is
  clamped to what is left. The result is the pair of the removed elements (what \<^verbatim>\<open>splice\<close>
  returns) and the array afterwards (what it leaves in \<^verbatim>\<open>xs\<close>).
\<close>

definition splice_start :: "nat \<Rightarrow> int \<Rightarrow> nat" where
  "splice_start len start =
     (if start < 0 then nat (max (int len + start) 0) else nat (min start (int len)))"

definition splice :: "'a list \<Rightarrow> int \<Rightarrow> int \<Rightarrow> 'a list \<Rightarrow> 'a list \<times> 'a list" where
  "splice xs start deleteCount items =
     (let a = splice_start (length xs) start;
          d = nat (min (max deleteCount 0) (int (length xs) - int a))
      in (take d (drop a xs), take a xs @ items @ drop (a + d) xs))"


section \<open>Schema editor (FormBuilder.tsx)\<close>

record DeletedFieldInfo =
  del_field :: FormField
  del_index :: int

text \<open>The fields of a \<^verbatim>\<open>Date\<close> that \<^verbatim>\<open>formatVersionId\<close> reads; \<open>month0\<close> is
  \<^verbatim>\<open>getMonth()\<close>, counted from 0.\<close>

record js_date =
  fullYear :: nat
  month0 :: nat
  date_day :: nat
  hours :: nat
  minutes :: nat
  seconds :: nat

record SavedVersion =
  version_id :: string
  timestamp :: js_date
  version_schema :: FormSchema

record BuilderState =
  schema :: FormSchema
  movingFieldId :: "string option"
  deletedField :: "DeletedFieldInfo option"
  savedVersions :: "SavedVersion list"
  currentVersionId :: "string option"
  isVersionDropdownOpen :: bool

text \<open>The initial state of the component; the schema id comes from \<^verbatim>\<open>generateId()\<close>.\<close>

definition initialState :: "string \<Rightarrow> BuilderState" where
  "initialState sid =
     \<lparr> schema = \<lparr> schema_id = sid, title = ''My Form'', description = Some '''',
                  schema_fields = [] \<rparr>,
       movingFieldId = None, deletedField = None, savedVersions = [],
       currentVersionId = None, isVersionDropdownOpen = False \<rparr>"

definition defaultOptions :: "string list" where
  "defaultOptions = [''Option 1'', ''Option 2'', ''Option 3'']"

text \<open>\<^verbatim>\<open>addField(type)\<close>; the fresh identifier of \<^verbatim>\<open>generateId()\<close> is a parameter.\<close>

definition addField :: "string \<Rightarrow> FieldType \<Rightarrow> BuilderState \<Rightarrow> BuilderState" where
  "addField newId ty st =
     (let newField = \<lparr> field_id = newId, field_type = ty, customFieldTypeId = None,
                       libraryId = None, label = '''', placeholder = Some '''',
                       required = False, multiple = False,
                       options = (if ty = Select then Some defaultOptions else None),
                       validationRules = None \<rparr>
      in st\<lparr> schema := (schema st)\<lparr> schema_fields := schema_fields (schema st) @ [newField] \<rparr> \<rparr>)"

definition updateField :: "FormField \<Rightarrow> BuilderState \<Rightarrow> BuilderState" where
  "updateField updatedField st =
     st\<lparr> schema := (schema st)\<lparr> schema_fields :=
            map (\<lambda>f. if field_id f = field_id updatedField then updatedField else f)
                (schema_fields (schema st)) \<rparr> \<rparr>"

definition deleteField :: "string \<Rightarrow> BuilderState \<Rightarrow> BuilderState" where
  "deleteField fid st =
     (let fieldIndex = findIndex (\<lambda>f. field_id f = fid) (schema_fields (schema st));
          field = js_index (schema_fields (schema st)) fieldIndex
      in case field of
           Some f \<Rightarrow>
             st\<lparr> deletedField := Some \<lparr> del_field = f, del_index = fieldIndex \<rparr>,
                 schema := (schema st)\<lparr> schema_fields :=
                    filter (\<lambda>f. field_id f \<noteq> fid) (schema_fields (schema st)) \<rparr> \<rparr>
         | None \<Rightarrow> st)"

definition undoDelete :: "BuilderState \<Rightarrow> BuilderState" where
  "undoDelete st =
     (case deletedField st of
        Some d \<Rightarrow>
          st\<lparr> schema := (schema st)\<lparr> schema_fields :=
                 snd (splice (schema_fields (schema st)) (del_index d) 0 [del_field d]) \<rparr>,
              deletedField := None \<rparr>
      | None \<Rightarrow> st)"


text \<open>
  \<^verbatim>\<open>moveFieldToPosition(fieldId, targetIndex)\<close>. The updater returns \<^verbatim>\<open>prev\<close> when the id
  is not found; otherwise it removes the field with \<^verbatim>\<open>splice(currentIndex, 1)\<close>, takes
  the first removed element, and inserts it at the adjusted index. The removed list is
  never empty here, since \<open>currentIndex\<close> is a position of the array; the model keeps the
  schema in that unreachable branch. The pending move is cleared in every case.
\<close>

definition moveFields :: "string \<Rightarrow> int \<Rightarrow> FormSchema \<Rightarrow> FormSchema" where
  "moveFields fieldId targetIndex prev =
     (let currentIndex = findIndex (\<lambda>f. field_id f = fieldId) (schema_fields prev)
      in if currentIndex = -1 then prev
         else (case splice (schema_fields prev) currentIndex 1 [] of
                 (movedField # _, newFields) \<Rightarrow>
                   (let adjustedIndex =
                          (if targetIndex > currentIndex then targetIndex - 1 else targetIndex)
                    in prev\<lparr> schema_fields := snd (splice newFields adjustedIndex 0 [movedField]) \<rparr>)
               | ([], _) \<Rightarrow> prev))"

definition moveFieldToPosition :: "string \<Rightarrow> int \<Rightarrow> BuilderState \<Rightarrow> BuilderState" where
  "moveFieldToPosition fieldId targetIndex st =
     st\<lparr> schema := moveFields fieldId targetIndex (schema st), movingFieldId := None \<rparr>"







subsection \<open>Saved versions\<close>






text \<open>
  \<^verbatim>\<open>JSON.parse(JSON.stringify(schema))\<close>. \<^verbatim>\<open>stringify\<close> walks the schema and writes
  every property whose value is not \<^verbatim>\<open>undefined\<close>; \<^verbatim>\<open>parse\<close> builds fresh objects and
  arrays from the text. The model stops at the JSON value (the text and its parser are not
  modelled): \<open>jsonOf...\<close> is the value that is written, \<open>...OfJson\<close> reads the parsed value
  back through the properties of the TypeScript interfaces, and answers \<open>None\<close> when a
  property does not have the shape the interface declares.
\<close>

datatype json =
  JNull | JBool bool | JNum int | JStr string | JArr "json list" | JObj "(string \<times> json) list"

definition fieldTypeName :: "FieldType \<Rightarrow> string" where
  "fieldTypeName t = (case t of Text \<Rightarrow> ''text'' | Email \<Rightarrow> ''email'' | Number \<Rightarrow> ''number''
     | Date \<Rightarrow> ''date'' | Textarea \<Rightarrow> ''textarea'' | Select \<Rightarrow> ''select''
     | Checkbox \<Rightarrow> ''checkbox'')"

definition fieldTypeOfName :: "string \<Rightarrow> FieldType option" where
  "fieldTypeOfName s =
     find (\<lambda>t. fieldTypeName t = s) [Text, Email, Number, Date, Textarea, Select, Checkbox]"

























section \<open>Field editor (FieldEditor.tsx)\<close>

text \<open>
  The two variants of the field editor that know custom field types have the same
  \<^verbatim>\<open>handleTypeChange\<close> and the same options textarea. A handler of the editor does not
  change state itself: it calls \<^verbatim>\<open>onUpdate\<close> with the new field, or does not call it. The
  model answers the argument of that call, \<open>None\<close> when there is no call.
\<close>

definition libraryFields :: "CustomFieldType list \<Rightarrow> FormField \<Rightarrow> CustomFieldType list" where
  "libraryFields customFields field =
     (case libraryId field of
        Some fieldLibraryId \<Rightarrow>
          if fieldLibraryId \<noteq> ''''
          then filter (\<lambda>cf. case libraryIds cf of Some ids \<Rightarrow> fieldLibraryId \<in> set ids
                                                 | None \<Rightarrow> False) customFields
          else []
      | None \<Rightarrow> [])"

definition isLibraryField :: "CustomFieldType list \<Rightarrow> FormField \<Rightarrow> bool" where
  "isLibraryField customFields field \<longleftrightarrow>
     (case libraryId field of Some fieldLibraryId \<Rightarrow> fieldLibraryId \<noteq> '''' | None \<Rightarrow> False)
     \<and> length (libraryFields customFields field) > 0"

text \<open>
  In the standard branch the value is cast to \<^verbatim>\<open>FieldType\<close>; the select offers the
  seven names of \<^verbatim>\<open>FIELD_TYPES\<close> only. Another string has no counterpart in the type
  \<open>FieldType\<close>, and the model makes no call for it.
\<close>

definition handleTypeChange :: "CustomFieldType list \<Rightarrow> FormField \<Rightarrow> string \<Rightarrow> FormField option" where
  "handleTypeChange customFields field v =
     (if isLibraryField customFields field then
        (case find (\<lambda>cf. cft_id cf = v) customFields of
           Some customField \<Rightarrow>
             Some (field\<lparr> field_type := baseType customField,
                          customFieldTypeId := Some (cft_id customField),
                          options := (if baseType customField = Select
                                      then Some (case options field of Some os \<Rightarrow> os
                                                 | None \<Rightarrow> defaultOptions)
                                      else None),
                          validationRules := Some (cft_validationRules customField) \<rparr>)
         | None \<Rightarrow> None)
      else
        (case fieldTypeOfName v of
           Some newType \<Rightarrow>
             Some (field\<lparr> field_type := newType,
                          customFieldTypeId := None,
                          options := (if newType = Select
                                      then Some (case options field of Some os \<Rightarrow> os
                                                 | None \<Rightarrow> defaultOptions)
                                      else None) \<rparr>)
         | None \<Rightarrow> None))"

text \<open>The editor wired to the builder: \<^verbatim>\<open>onUpdate={updateField}\<close>.\<close>

definition changeFieldType ::
    "CustomFieldType list \<Rightarrow> FormField \<Rightarrow> string \<Rightarrow> BuilderState \<Rightarrow> BuilderState" where
  "changeFieldType customFields field v st =
     (case handleTypeChange customFields field v of
        Some updatedField \<Rightarrow> updateField updatedField st
      | None \<Rightarrow> st)"

text \<open>
  \<^verbatim>\<open>text.split('\n')\<close> and \<^verbatim>\<open>o.trim()\<close>. The white space of \<^verbatim>\<open>trim\<close> that a \<open>char\<close> can
  hold: tab, line feed, vertical tab, form feed, carriage return, space and no-break
  space.
\<close>

fun split_on :: "char \<Rightarrow> string \<Rightarrow> string list" where
  "split_on c [] = [[]]"
| "split_on c (x # xs) =
     (if x = c then [] # split_on c xs
      else (case split_on c xs of y # ys \<Rightarrow> (x # y) # ys | [] \<Rightarrow> [[x]]))"

definition isWhiteSpace :: "char \<Rightarrow> bool" where
  "isWhiteSpace c \<longleftrightarrow> (of_char c :: nat) \<in> {9, 10, 11, 12, 13, 32, 160}"

definition trim :: "string \<Rightarrow> string" where
  "trim s = rev (dropWhile isWhiteSpace (rev (dropWhile isWhiteSpace s)))"

definition optionsOnChange :: "FormField \<Rightarrow> string \<Rightarrow> FormField" where
  "optionsOnChange field txt =
     field\<lparr> options := Some (filter (\<lambda>opt. trim opt \<noteq> '''') (split_on CHR 0x0A txt)) \<rparr>"

definition editOptions :: "FormField \<Rightarrow> string \<Rightarrow> BuilderState \<Rightarrow> BuilderState" where
  "editOptions field txt st = updateField (optionsOnChange field txt) st"


section \<open>Field designer (FieldDesigner.tsx, CreateFieldModal.tsx)\<close>

record ValidationTypeInfo =
  vt_type :: RuleType
  vt_label :: string
  appliesTo :: "FieldType list"

definition VALIDATION_TYPES :: "ValidationTypeInfo list" where
  "VALIDATION_TYPES =
     [\<lparr> vt_type = Regex, vt_label = ''Regex Pattern'', appliesTo = [Text, Email, Textarea] \<rparr>,
      \<lparr> vt_type = MinLength, vt_label = ''Minimum Length'', appliesTo = [Text, Email, Textarea] \<rparr>,
      \<lparr> vt_type = MaxLength, vt_label = ''Maximum Length'', appliesTo = [Text, Email, Textarea] \<rparr>,
      \<lparr> vt_type = MinValue, vt_label = ''Minimum Value'', appliesTo = [Number, Date] \<rparr>,
      \<lparr> vt_type = MaxValue, vt_label = ''Maximum Value'', appliesTo = [Number, Date] \<rparr>]"

text \<open>The filter of the base type select: \<^verbatim>\<open>VALIDATION_TYPES.find(v => v.type ===
  rule.type)?.appliesTo.includes(newBaseType)\<close>; a rule type that is not in the table gives
  \<^verbatim>\<open>undefined\<close>, which the filter reads as false.\<close>

definition applicableRules :: "FieldType \<Rightarrow> ValidationRule list \<Rightarrow> ValidationRule list" where
  "applicableRules newBaseType rules =
     filter (\<lambda>rule. case find (\<lambda>v. vt_type v = rule_type rule) VALIDATION_TYPES of
                      Some v \<Rightarrow> newBaseType \<in> set (appliesTo v)
                    | None \<Rightarrow> False) rules"

text \<open>In the designer the draft is \<^verbatim>\<open>editingField\<close>, which may be \<^verbatim>\<open>null\<close>
  (\<^verbatim>\<open>updateEditingField\<close> does nothing then); in the modal the draft is always there.\<close>

definition updateEditingField ::
    "(CustomFieldType \<Rightarrow> CustomFieldType) \<Rightarrow> CustomFieldType option \<Rightarrow> CustomFieldType option" where
  "updateEditingField updates editingField =
     (case editingField of Some ef \<Rightarrow> Some (updates ef) | None \<Rightarrow> None)"

definition designerBaseTypeChange ::
    "FieldType \<Rightarrow> CustomFieldType option \<Rightarrow> CustomFieldType option" where
  "designerBaseTypeChange newBaseType editingField =
     (case editingField of
        Some ef \<Rightarrow>
          updateEditingField
            (\<lambda>e. e\<lparr> baseType := newBaseType,
                    cft_validationRules := applicableRules newBaseType (cft_validationRules ef) \<rparr>)
            editingField
      | None \<Rightarrow> None)"

definition modalBaseTypeChange :: "FieldType \<Rightarrow> CustomFieldType \<Rightarrow> CustomFieldType" where
  "modalBaseTypeChange newBaseType field =
     field\<lparr> baseType := newBaseType,
            cft_validationRules := applicableRules newBaseType (cft_validationRules field) \<rparr>"


section \<open>Registry and library index (App.tsx)\<close>

record AppState =
  customFields :: "CustomFieldType list"
  fieldLibraries :: "FieldLibrary list"





definition handleDeleteLibrary :: "string \<Rightarrow> AppState \<Rightarrow> AppState" where
  "handleDeleteLibrary i st =
     st\<lparr> fieldLibraries := filter (\<lambda>l. lib_id l \<noteq> i) (fieldLibraries st),
         customFields :=
           map (\<lambda>f. case libraryIds f of
                      Some ids \<Rightarrow>
                        if i \<in> set ids
                        then f\<lparr> libraryIds := Some (filter (\<lambda>libId. libId \<noteq> i) ids) \<rparr>
                        else f
                    | None \<Rightarrow> f)
               (customFields st) \<rparr>"

text \<open>
  The library tree of the browser (FieldLibraryBrowser.tsx), as far as its root level:
  the first pass stores one node per library id in \<^verbatim>\<open>libraryMap\<close> (a later library with
  the same id replaces the earlier node); the second pass pushes the node of a library to
  the roots unless \<^verbatim>\<open>library.parentId && libraryMap.has(library.parentId)\<close>.
  \<open>rootLibraries\<close> lists the libraries of the root nodes in order.
\<close>

definition libraryMap :: "FieldLibrary list \<Rightarrow> (string \<rightharpoonup> FieldLibrary)" where
  "libraryMap libs = map_of (rev (map (\<lambda>l. (lib_id l, l)) libs))"

definition hasParent :: "FieldLibrary list \<Rightarrow> FieldLibrary \<Rightarrow> bool" where
  "hasParent libs library \<longleftrightarrow>
     (case parentId library of
        Some p \<Rightarrow> p \<noteq> '''' \<and> libraryMap libs p \<noteq> None
      | None \<Rightarrow> False)"

definition rootLibraries :: "FieldLibrary list \<Rightarrow> FieldLibrary list" where
  "rootLibraries libs =
     concat (map (\<lambda>library.
                    case libraryMap libs (lib_id library) of
                      Some node \<Rightarrow> if hasParent libs library then [] else [node]
                    | None \<Rightarrow> [])
                 libs)"






text \<open>
  The applicability of rule kinds in the words of the specification: regex, minLength
  and maxLength apply to text, email and long text; min and max apply to number and date.
\<close>

definition spec_applies :: "RuleType \<Rightarrow> FieldType \<Rightarrow> bool" where
  "spec_applies k t \<longleftrightarrow>
     (k \<in> {Regex, MinLength, MaxLength} \<and> t \<in> {Text, Email, Textarea})
     \<or> (k \<in> {MinValue, MaxValue} \<and> t \<in> {Number, Date})"


section \<open>Concrete inputs\<close>

text \<open>A schema with four fields, a registry with two libraries (one nested in the other)
  and three custom field types, and a session over both.\<close>

definition fourFields :: BuilderState where
  "fourFields = addField ''f3'' Checkbox (addField ''f2'' Select (addField ''f1'' Email
                  (addField ''f0'' Text (initialState ''form''))))"

definition zipRule :: ValidationRule where
  "zipRule = \<lparr> rule_type = Regex, rule_value = StrValue ''^[0-9]{5}$'',
               rule_message = ''Please enter a valid ZIP code'' \<rparr>"

definition zipCode :: CustomFieldType where
  "zipCode = \<lparr> cft_id = ''zip'', cft_name = ''ZIP Code'', baseType = Text, icon = ''#'',
               cft_description = None, cft_validationRules = [zipRule],
               defaultPlaceholder = None, libraryIds = Some [''addr'', ''contact''] \<rparr>"

definition country :: CustomFieldType where
  "country = \<lparr> cft_id = ''country'', cft_name = ''Country'', baseType = Select, icon = ''#'',
               cft_description = None, cft_validationRules = [],
               defaultPlaceholder = None, libraryIds = Some [''addr''] \<rparr>"

definition age :: CustomFieldType where
  "age = \<lparr> cft_id = ''age'', cft_name = ''Age'', baseType = Number, icon = ''#'',
           cft_description = None, cft_validationRules = [],
           defaultPlaceholder = None, libraryIds = None \<rparr>"

definition addressLibrary :: FieldLibrary where
  "addressLibrary = \<lparr> lib_id = ''addr'', lib_name = ''Address'', lib_description = None,
                      parentId = None \<rparr>"

definition streetLibrary :: FieldLibrary where
  "streetLibrary = \<lparr> lib_id = ''street'', lib_name = ''Street'', lib_description = None,
                     parentId = Some ''addr'' \<rparr>"

definition exampleApp :: AppState where
  "exampleApp = \<lparr> customFields = [zipCode, country, age],
                  fieldLibraries = [addressLibrary, streetLibrary] \<rparr>"

definition colourField :: FormField where
  "colourField = \<lparr> field_id = ''f2'', field_type = Select, customFieldTypeId = None,
                   libraryId = Some ''addr'', label = ''Colour'', placeholder = None,
                   required = False, multiple = False, options = Some [''Red'', ''Green''],
                   validationRules = None \<rparr>"



section \<open>Facts about the array primitives\<close>

lemma findIndex_ge: "- 1 \<le> findIndex P xs"
  by (induction xs) (auto simp: Let_def)

lemma findIndex_none: "findIndex P xs = - 1 \<longleftrightarrow> (\<forall>x \<in> set xs. \<not> P x)"
proof (induction xs)
  case Nil
  show ?case by simp
next
  case (Cons x xs)
  have "- 1 \<le> findIndex P xs" by (rule findIndex_ge)
  then have "findIndex P xs + 1 \<noteq> - 1" by arith
  with Cons show ?case by (auto simp: Let_def)
qed

lemma findIndex_found:
  "findIndex P xs \<noteq> - 1 \<Longrightarrow>
     0 \<le> findIndex P xs \<and> findIndex P xs < int (length xs) \<and> P (xs ! nat (findIndex P xs))"
proof (induction xs)
  case Nil
  then show ?case by simp
next
  case (Cons x xs)
  show ?case
  proof (cases "P x")
    case True
    then show ?thesis by simp
  next
    case False
    with Cons.prems have ne: "findIndex P xs \<noteq> - 1"
      by (auto simp: Let_def split: if_splits)
    from Cons.IH [OF ne] False ne show ?thesis
      by (auto simp: Let_def nat_add_distrib)
  qed
qed

lemma findIndex_first:
  "findIndex P xs \<noteq> - 1 \<Longrightarrow> j < nat (findIndex P xs) \<Longrightarrow> \<not> P (xs ! j)"
proof (induction xs arbitrary: j)
  case Nil
  then show ?case by simp
next
  case (Cons x xs)
  show ?case
  proof (cases "P x")
    case True
    with Cons.prems show ?thesis by simp
  next
    case False
    with Cons.prems have ne: "findIndex P xs \<noteq> - 1"
      by (auto simp: Let_def split: if_splits)
    have ge: "0 \<le> findIndex P xs" using findIndex_found [OF ne] by simp
    show ?thesis
    proof (cases j)
      case 0
      with False show ?thesis by simp
    next
      case (Suc k)
      with Cons.prems False ne ge have "k < nat (findIndex P xs)"
        by (auto simp: Let_def nat_add_distrib)
      from Cons.IH [OF ne this] Suc show ?thesis by simp
    qed
  qed
qed

lemma splice_start_le: "splice_start len start \<le> len"
  by (auto simp: splice_start_def)

lemma splice_start_in_range:
  "0 \<le> i \<Longrightarrow> i \<le> int len \<Longrightarrow> splice_start len i = nat i"
  by (auto simp: splice_start_def)

lemma splice_start_beyond: "int len \<le> i \<Longrightarrow> splice_start len i = len"
  by (auto simp: splice_start_def)

lemma splice_insert: "snd (splice xs start 0 [x]) =
    take (splice_start (length xs) start) xs @ x # drop (splice_start (length xs) start) xs"
  by (simp add: splice_def Let_def)

lemma splice_remove_one:
  "0 \<le> i \<Longrightarrow> i < int (length xs) \<Longrightarrow>
     splice xs i 1 [] = ([xs ! nat i], take (nat i) xs @ drop (Suc (nat i)) xs)"
proof -
  assume a: "0 \<le> i" "i < int (length xs)"
  then have s: "splice_start (length xs) i = nat i"
    by (simp add: splice_start_in_range)
  from a have n: "nat i < length xs" by simp
  have d: "nat (min (max 1 0) (int (length xs) - int (nat i))) = 1"
    using a by simp
  have "take 1 (drop (nat i) xs) = [xs ! nat i]"
    using n by (simp add: take_Suc_conv_app_nth hd_drop_conv_nth take_Suc)
  then show ?thesis
    using s d by (simp add: splice_def Let_def)
qed

lemma mset_splice_insert: "mset (snd (splice xs start 0 [x])) = add_mset x (mset xs)"
proof -
  let ?a = "splice_start (length xs) start"
  have e: "mset (take ?a xs) + mset (drop ?a xs) = mset xs"
    by (metis append_take_drop_id mset_append)
  show ?thesis by (simp add: splice_insert e)
qed

lemma mset_remove_nth:
  "n < length xs \<Longrightarrow> add_mset (xs ! n) (mset (take n xs @ drop (Suc n) xs)) = mset xs"
proof -
  assume n: "n < length xs"
  then have "xs = take n xs @ xs ! n # drop (Suc n) xs"
    by (simp add: id_take_nth_drop)
  then have "mset xs = mset (take n xs @ xs ! n # drop (Suc n) xs)" by simp
  then show ?thesis by simp
qed


lemma findIndex_distinct:
  assumes d: "distinct (map g xs)" and i: "i < length xs"
  shows "findIndex (\<lambda>x. g x = g (xs ! i)) xs = int i"
proof -
  let ?P = "\<lambda>x. g x = g (xs ! i)"
  have "\<exists>x \<in> set xs. ?P x" using i by auto
  then have ne: "findIndex ?P xs \<noteq> - 1" by (simp add: findIndex_none)
  from findIndex_found [OF ne]
  have r: "0 \<le> findIndex ?P xs" "nat (findIndex ?P xs) < length xs"
    "g (xs ! nat (findIndex ?P xs)) = g (xs ! i)" by auto
  from r(2,3) i have "map g xs ! nat (findIndex ?P xs) = map g xs ! i" by simp
  with r(2) i have "nat (findIndex ?P xs) = i"
    using nth_eq_iff_index_eq [OF d, of "nat (findIndex ?P xs)" i] by simp
  with r(1) show ?thesis by simp
qed

lemma filter_distinct_remove:
  "distinct (map g xs) \<Longrightarrow> i < length xs \<Longrightarrow>
     filter (\<lambda>x. g x \<noteq> g (xs ! i)) xs = take i xs @ drop (Suc i) xs"
proof (induction xs arbitrary: i)
  case Nil
  then show ?case by simp
next
  case (Cons x xs)
  show ?case
  proof (cases i)
    case 0
    from Cons.prems have "g x \<notin> g ` set xs" by simp
    then have "\<forall>y \<in> set xs. g y \<noteq> g x" by (metis imageI)
    then have "filter (\<lambda>y. g y \<noteq> g x) xs = xs" by (simp add: filter_id_conv)
    with 0 show ?thesis by simp
  next
    case (Suc j)
    with Cons.prems have j: "j < length xs" by simp
    then have "xs ! j \<in> set xs" by simp
    with Cons.prems have "g x \<noteq> g (xs ! j)" by auto
    moreover from Cons.prems have "distinct (map g xs)" by simp
    ultimately show ?thesis using Cons.IH [OF _ j] Suc by simp
  qed
qed


section \<open>The JSON copy gives back the schema\<close>












section \<open>Moving a field\<close>

lemma moveFields_found:
  assumes i: "findIndex (\<lambda>f. field_id f = fid) (schema_fields s) = i" and ne: "i \<noteq> - 1"
  shows "moveFields fid k s =
           s\<lparr> schema_fields :=
                (let rest = take (nat i) (schema_fields s) @ drop (Suc (nat i)) (schema_fields s);
                     a = splice_start (length rest) (if k > i then k - 1 else k)
                 in take a rest @ schema_fields s ! nat i # drop a rest) \<rparr>"
proof -
  from findIndex_found [of "\<lambda>f. field_id f = fid" "schema_fields s"] i ne
  have r: "0 \<le> i" "i < int (length (schema_fields s))" by auto
  show ?thesis
    using i ne splice_remove_one [OF r]
    by (simp add: moveFields_def Let_def splice_insert)
qed

lemma moveFields_not_found:
  "findIndex (\<lambda>f. field_id f = fid) (schema_fields s) = - 1 \<Longrightarrow> moveFields fid k s = s"
  by (simp add: moveFields_def)

lemma moveFields_mset:
  "mset (schema_fields (moveFields fid k s)) = mset (schema_fields s)"
proof (cases "findIndex (\<lambda>f. field_id f = fid) (schema_fields s) = - 1")
  case True
  then show ?thesis by (simp add: moveFields_not_found)
next
  case False
  define i where "i = findIndex (\<lambda>f. field_id f = fid) (schema_fields s)"
  with False have ne: "i \<noteq> - 1" by simp
  from findIndex_found [of "\<lambda>f. field_id f = fid" "schema_fields s"] False
  have r: "0 \<le> i" "i < int (length (schema_fields s))" by (auto simp: i_def)
  then have n: "nat i < length (schema_fields s)" by simp
  let ?rest = "take (nat i) (schema_fields s) @ drop (Suc (nat i)) (schema_fields s)"
  let ?a = "splice_start (length ?rest) (if k > i then k - 1 else k)"
  have "mset (take ?a ?rest @ schema_fields s ! nat i # drop ?a ?rest)
          = add_mset (schema_fields s ! nat i) (mset (take ?a ?rest @ drop ?a ?rest))"
    by simp
  also have "\<dots> = add_mset (schema_fields s ! nat i) (mset ?rest)"
    by (simp only: append_take_drop_id)
  also have "\<dots> = mset (schema_fields s)"
    by (rule mset_remove_nth [OF n])
  finally show ?thesis
    using moveFields_found [OF i_def [symmetric] ne, of k]
    by (simp add: Let_def)
qed

lemma moveFields_frame:
  "schema_id (moveFields fid k s) = schema_id s \<and> title (moveFields fid k s) = title s \<and>
   description (moveFields fid k s) = description s"
  by (simp add: moveFields_def Let_def split: prod.splits list.splits)

lemma moveFields_example:
  assumes "schema_fields s = [f0, f1, f2, f3]" "distinct (map field_id [f0, f1, f2, f3])"
  shows "schema_fields (moveFields (field_id f0) 3 s) = [f1, f2, f0, f3]"
    and "schema_fields (moveFields (field_id f3) 0 s) = [f3, f0, f1, f2]"
  using assms by (auto simp: moveFields_def Let_def splice_def splice_start_def)

text \<open>
  Claim C1. \<^verbatim>\<open>moveFieldToPosition\<close> permutes the field list: for every state, field id
  and target index the fields afterwards are the same fields with the same multiplicities
  (so the same set of ids and the same number of fields), and the id, title and
  description of the schema are kept. When the id is found at index \<open>i\<close>, the field is
  taken out and put back at the adjusted index, \<open>k - 1\<close> if \<open>k > i\<close> and \<open>k\<close> otherwise
  (clamped by \<^verbatim>\<open>splice\<close>). On four fields \<open>[f0, f1, f2, f3]\<close> with distinct ids, moving
  \<open>f0\<close> to target index 3 gives \<open>[f1, f2, f0, f3]\<close> and moving \<open>f3\<close> to target index 0
  gives \<open>[f3, f0, f1, f2]\<close>.
\<close>

theorem moveFieldToPosition_permutation:
  "mset (schema_fields (schema (moveFieldToPosition fid k st))) = mset (schema_fields (schema st))
   \<and> set (map field_id (schema_fields (schema (moveFieldToPosition fid k st))))
       = set (map field_id (schema_fields (schema st)))
   \<and> length (schema_fields (schema (moveFieldToPosition fid k st)))
       = length (schema_fields (schema st))
   \<and> schema_id (schema (moveFieldToPosition fid k st)) = schema_id (schema st)
   \<and> title (schema (moveFieldToPosition fid k st)) = title (schema st)
   \<and> description (schema (moveFieldToPosition fid k st)) = description (schema st)
   \<and> (\<forall>i. findIndex (\<lambda>f. field_id f = fid) (schema_fields (schema st)) = i \<and> i \<noteq> - 1 \<longrightarrow>
          schema_fields (schema (moveFieldToPosition fid k st)) =
            (let fs = schema_fields (schema st);
                 rest = take (nat i) fs @ drop (Suc (nat i)) fs;
                 a = splice_start (length rest) (if k > i then k - 1 else k)
             in take a rest @ fs ! nat i # drop a rest))
   \<and> (schema_fields (schema st) = [f0, f1, f2, f3] \<and> distinct (map field_id [f0, f1, f2, f3]) \<longrightarrow>
          schema_fields (schema (moveFieldToPosition (field_id f0) 3 st)) = [f1, f2, f0, f3] \<and>
          schema_fields (schema (moveFieldToPosition (field_id f3) 0 st)) = [f3, f0, f1, f2])"
proof -
  have sch: "\<And>a b. schema (moveFieldToPosition a b st) = moveFields a b (schema st)"
    by (simp add: moveFieldToPosition_def)
  have m: "mset (schema_fields (moveFields fid k (schema st))) = mset (schema_fields (schema st))"
    by (rule moveFields_mset)
  have ids: "set (map field_id (schema_fields (moveFields fid k (schema st))))
               = set (map field_id (schema_fields (schema st)))"
    using m by (metis mset_map set_mset_mset)
  have len: "length (schema_fields (moveFields fid k (schema st)))
               = length (schema_fields (schema st))"
    using m by (metis size_mset)
  have adj: "\<forall>i. findIndex (\<lambda>f. field_id f = fid) (schema_fields (schema st)) = i \<and> i \<noteq> - 1 \<longrightarrow>
          schema_fields (moveFields fid k (schema st)) =
            (let fs = schema_fields (schema st);
                 rest = take (nat i) fs @ drop (Suc (nat i)) fs;
                 a = splice_start (length rest) (if k > i then k - 1 else k)
             in take a rest @ fs ! nat i # drop a rest)"
    by (auto simp: moveFields_found Let_def)
  have ex: "schema_fields (schema st) = [f0, f1, f2, f3] \<and> distinct (map field_id [f0, f1, f2, f3]) \<longrightarrow>
          schema_fields (moveFields (field_id f0) 3 (schema st)) = [f1, f2, f0, f3] \<and>
          schema_fields (moveFields (field_id f3) 0 (schema st)) = [f3, f0, f1, f2]"
    using moveFields_example [of "schema st" f0 f1 f2 f3] by blast
  show ?thesis
    unfolding sch using m ids len adj ex moveFields_frame [of fid k "schema st"] by blast
qed

theorem moveFieldToPosition_permutation_witness:
  "findIndex (\<lambda>f. field_id f = ''f0'') (schema_fields (schema fourFields)) = 0
   \<and> distinct (map field_id (schema_fields (schema fourFields)))
   \<and> map field_id (schema_fields (schema (moveFieldToPosition ''f0'' 3 fourFields)))
        = [''f1'', ''f2'', ''f0'', ''f3'']
   \<and> map field_id (schema_fields (schema (moveFieldToPosition ''f3'' 0 fourFields)))
        = [''f3'', ''f0'', ''f1'', ''f2'']"
proof -
  let ?fs = "schema_fields (schema fourFields)"
  have fs: "?fs = [?fs ! 0, ?fs ! 1, ?fs ! 2, ?fs ! 3]"
    by (simp add: fourFields_def addField_def initialState_def)
  have ids: "map field_id ?fs = [''f0'', ''f1'', ''f2'', ''f3'']"
    by (simp add: fourFields_def addField_def initialState_def)
  have fi: "findIndex (\<lambda>f. field_id f = ''f0'') ?fs = 0"
    by (simp add: fourFields_def addField_def initialState_def)
  have d: "distinct (map field_id [?fs ! 0, ?fs ! 1, ?fs ! 2, ?fs ! 3])"
    using fs ids by simp
  have i0: "field_id (?fs ! 0) = ''f0''" and i3: "field_id (?fs ! 3) = ''f3''"
    and i1: "field_id (?fs ! 1) = ''f1''" and i2: "field_id (?fs ! 2) = ''f2''"
    by (simp_all add: fourFields_def addField_def initialState_def)
  from moveFieldToPosition_permutation [of "''f0''" 3 fourFields
          "?fs ! 0" "?fs ! 1" "?fs ! 2" "?fs ! 3"] fs d
  have "schema_fields (schema (moveFieldToPosition (field_id (?fs ! 0)) 3 fourFields))
          = [?fs ! 1, ?fs ! 2, ?fs ! 0, ?fs ! 3]"
    and "schema_fields (schema (moveFieldToPosition (field_id (?fs ! 3)) 0 fourFields))
          = [?fs ! 3, ?fs ! 0, ?fs ! 1, ?fs ! 2]"
    by blast+
  then show ?thesis
    using fi d ids i0 i1 i2 i3 by simp
qed


section \<open>Deleting a field and undoing it\<close>

lemma undo_restores:
  assumes d: "distinct (map field_id (schema_fields (schema st)))"
      and i: "i < length (schema_fields (schema st))"
  shows "undoDelete (deleteField (field_id (schema_fields (schema st) ! i)) st)
           = st\<lparr> deletedField := None \<rparr>"
proof -
  let ?fs = "schema_fields (schema st)"
  have fi: "findIndex (\<lambda>f. field_id f = field_id (?fs ! i)) ?fs = int i"
    by (rule findIndex_distinct [OF d i])
  have ix: "js_index ?fs (int i) = Some (?fs ! i)"
    using i by (simp add: js_index_def)
  have fl: "filter (\<lambda>f. field_id f \<noteq> field_id (?fs ! i)) ?fs = take i ?fs @ drop (Suc i) ?fs"
    by (rule filter_distinct_remove [OF d i])
  let ?r = "take i ?fs @ drop (Suc i) ?fs"
  have sp: "splice_start (length ?r) (int i) = i"
    using i by (simp add: splice_start_def)
  have "snd (splice ?r (int i) 0 [?fs ! i]) = take i ?r @ ?fs ! i # drop i ?r"
    by (simp only: splice_insert sp)
  also have "take i ?r = take i ?fs"
    using i by simp
  also have "drop i ?r = drop (Suc i) ?fs"
    using i by simp
  also have "take i ?fs @ ?fs ! i # drop (Suc i) ?fs = ?fs"
    using i by (simp add: id_take_nth_drop [symmetric])
  finally have restored: "snd (splice ?r (int i) 0 [?fs ! i]) = ?fs" .
  show ?thesis
    by (simp add: deleteField_def undoDelete_def Let_def fi ix fl restored)
qed

lemma undo_append:
  "deletedField st = Some d \<Longrightarrow> int (length (schema_fields (schema st))) \<le> del_index d \<Longrightarrow>
     schema_fields (schema (undoDelete st)) = schema_fields (schema st) @ [del_field d]"
  by (simp add: undoDelete_def splice_insert splice_start_beyond)

lemma undo_at_index:
  "deletedField st = Some d \<Longrightarrow> 0 \<le> del_index d \<Longrightarrow>
   del_index d \<le> int (length (schema_fields (schema st))) \<Longrightarrow>
     schema_fields (schema (undoDelete st)) =
       take (nat (del_index d)) (schema_fields (schema st)) @ del_field d #
       drop (nat (del_index d)) (schema_fields (schema st))"
  by (simp add: undoDelete_def splice_insert splice_start_in_range)

lemma undo_twice: "undoDelete (undoDelete st) = undoDelete st"
  by (simp add: undoDelete_def split: option.splits)

lemma undo_nothing: "deletedField st = None \<Longrightarrow> undoDelete st = st"
  by (simp add: undoDelete_def)

text \<open>
  Claim C2. Undo of a delete is exact and single-shot. In a schema whose field ids are
  distinct (the invariant of a form schema), deleting the field at any index \<open>i\<close> and then
  calling \<^verbatim>\<open>undoDelete\<close> gives back the state before, with the same schema and no pending
  deletion. In any state with a pending deletion, \<^verbatim>\<open>undoDelete\<close> inserts the field at the
  recorded index when that index is a position of the current list, and appends it at the
  end when the recorded index is at or beyond the end. After an undo nothing is pending,
  a second undo changes nothing, and an undo with nothing pending changes nothing.
\<close>

theorem undoDelete_exact_single_shot:
  "(distinct (map field_id (schema_fields (schema st))) \<and> i < length (schema_fields (schema st)) \<longrightarrow>
      undoDelete (deleteField (field_id (schema_fields (schema st) ! i)) st)
        = st\<lparr> deletedField := None \<rparr>)
   \<and> (deletedField st = Some d \<and> 0 \<le> del_index d
        \<and> del_index d \<le> int (length (schema_fields (schema st))) \<longrightarrow>
      schema_fields (schema (undoDelete st)) =
        take (nat (del_index d)) (schema_fields (schema st)) @ del_field d #
        drop (nat (del_index d)) (schema_fields (schema st)))
   \<and> (deletedField st = Some d \<and> int (length (schema_fields (schema st))) \<le> del_index d \<longrightarrow>
      schema_fields (schema (undoDelete st)) = schema_fields (schema st) @ [del_field d])
   \<and> deletedField (undoDelete st) = None
   \<and> undoDelete (undoDelete st) = undoDelete st
   \<and> (deletedField st = None \<longrightarrow> undoDelete st = st)"
proof -
  have "deletedField (undoDelete st) = None"
    by (simp add: undoDelete_def split: option.splits)
  then show ?thesis
    using undo_restores [of st i] undo_at_index [of st d] undo_append [of st d]
      undo_twice [of st] undo_nothing [of st]
    by blast
qed

theorem undoDelete_exact_single_shot_witness:
  "distinct (map field_id (schema_fields (schema fourFields)))
   \<and> 2 < length (schema_fields (schema fourFields))
   \<and> schema (undoDelete (deleteField ''f2'' fourFields)) = schema fourFields
   \<and> deletedField fourFields = None \<and> undoDelete fourFields = fourFields
   \<and> (\<exists>d. deletedField (deleteField ''f3'' fourFields) = Some d \<and> del_index d = 3
          \<and> length (schema_fields (schema (deleteField ''f3'' fourFields))) = 3
          \<and> schema_fields (schema (undoDelete (deleteField ''f3'' fourFields)))
              = schema_fields (schema (deleteField ''f3'' fourFields)) @ [del_field d])"
proof -
  let ?fs = "schema_fields (schema fourFields)"
  let ?st = "deleteField ''f3'' fourFields"
  have ids: "map field_id ?fs = [''f0'', ''f1'', ''f2'', ''f3'']"
    by (simp add: fourFields_def addField_def initialState_def)
  then have d: "distinct (map field_id ?fs)" by simp
  have l: "2 < length ?fs"
    by (simp add: fourFields_def addField_def initialState_def)
  have i2: "field_id (?fs ! 2) = ''f2''"
    by (simp add: fourFields_def addField_def initialState_def)
  have n: "deletedField fourFields = None"
    by (simp add: fourFields_def addField_def initialState_def)
  have p: "deletedField ?st = Some \<lparr> del_field = ?fs ! 3, del_index = 3 \<rparr>"
    by (simp add: deleteField_def fourFields_def addField_def initialState_def js_index_def)
  have l3: "length (schema_fields (schema ?st)) = 3"
    by (simp add: deleteField_def fourFields_def addField_def initialState_def js_index_def)
  from undoDelete_exact_single_shot [of fourFields 2] d l i2 n
  have a: "schema (undoDelete (deleteField ''f2'' fourFields)) = schema fourFields"
    and b: "undoDelete fourFields = fourFields"
    by auto
  from undoDelete_exact_single_shot [of ?st _ "\<lparr> del_field = ?fs ! 3, del_index = 3 \<rparr>"] p l3
  have c: "schema_fields (schema (undoDelete ?st)) = schema_fields (schema ?st) @ [?fs ! 3]"
    by simp
  show ?thesis
    using d l a b n p l3 c by simp
qed


section \<open>Unknown field ids\<close>

lemma unknown_noop:
  assumes "fid \<notin> set (map field_id (schema_fields (schema st)))"
  shows "deleteField fid st = st"
    and "field_id u = fid \<Longrightarrow> updateField u st = st"
    and "schema (moveFieldToPosition fid k st) = schema st"
proof -
  from assms have n: "findIndex (\<lambda>f. field_id f = fid) (schema_fields (schema st)) = - 1"
    by (auto simp: findIndex_none)
  show "deleteField fid st = st"
    by (simp add: deleteField_def n js_index_def)
  show "schema (moveFieldToPosition fid k st) = schema st"
    by (simp add: moveFieldToPosition_def moveFields_not_found n)
  assume u: "field_id u = fid"
  have "map (\<lambda>f. if field_id f = field_id u then u else f) (schema_fields (schema st))
      = schema_fields (schema st)"
  proof (rule map_idI)
    fix x assume "x \<in> set (schema_fields (schema st))"
    with assms have "field_id x \<noteq> fid" by auto
    with u show "(if field_id x = field_id u then u else x) = x" by simp
  qed
  then show "updateField u st = st" by (simp add: updateField_def)
qed

text \<open>
  Claim C8. An operation that addresses a field id that no field of the schema has
  changes nothing: \<^verbatim>\<open>deleteField\<close> leaves the whole state (the field list and the pending
  undo record) as it was, \<^verbatim>\<open>updateField\<close> with a field of that id leaves the state as it
  was, and \<^verbatim>\<open>moveFieldToPosition\<close> leaves the schema as it was for every target index (it
  only clears the pending move). The handlers are total functions: none of them fails.
\<close>

theorem unknown_field_id_noop:
  "fid \<notin> set (map field_id (schema_fields (schema st))) \<Longrightarrow>
     deleteField fid st = st
     \<and> (field_id u = fid \<longrightarrow> updateField u st = st)
     \<and> moveFieldToPosition fid k st = st\<lparr> movingFieldId := None \<rparr>
     \<and> schema (moveFieldToPosition fid k st) = schema st"
proof -
  assume a: "fid \<notin> set (map field_id (schema_fields (schema st)))"
  then have n: "findIndex (\<lambda>f. field_id f = fid) (schema_fields (schema st)) = - 1"
    by (auto simp: findIndex_none)
  have "moveFieldToPosition fid k st = st\<lparr> movingFieldId := None \<rparr>"
    by (simp add: moveFieldToPosition_def moveFields_not_found n)
  with unknown_noop [OF a] show ?thesis by blast
qed

theorem unknown_field_id_noop_witness:
  "''zz'' \<notin> set (map field_id (schema_fields (schema fourFields)))
   \<and> deleteField ''zz'' fourFields = fourFields
   \<and> updateField ((schema_fields (schema fourFields) ! 0)\<lparr> field_id := ''zz'' \<rparr>) fourFields
       = fourFields
   \<and> schema (moveFieldToPosition ''zz'' 2 fourFields) = schema fourFields"
proof -
  have h: "''zz'' \<notin> set (map field_id (schema_fields (schema fourFields)))"
    by (simp add: fourFields_def addField_def initialState_def)
  from unknown_field_id_noop [OF h, of "(schema_fields (schema fourFields) ! 0)\<lparr> field_id := ''zz'' \<rparr>" 2]
  show ?thesis using h by simp
qed


section \<open>Changing the base type of a custom field type\<close>

lemma applicableRules_spec:
  "applicableRules nb rules = filter (\<lambda>r. spec_applies (rule_type r) nb) rules"
proof -
  have "\<And>k. (case find (\<lambda>v. vt_type v = k) VALIDATION_TYPES of
               Some v \<Rightarrow> nb \<in> set (appliesTo v) | None \<Rightarrow> False) = spec_applies k nb"
    subgoal for k
      by (cases k; cases nb) (simp_all add: VALIDATION_TYPES_def spec_applies_def)
    done
  then show ?thesis by (simp add: applicableRules_def)
qed

text \<open>
  Claim C3. Changing the base type of a custom field type, in the designer and in the
  modal, sets the new base type and keeps exactly the validation rules whose kind applies
  to it, in their order; every other property of the type is kept. A type with base type
  text and one regex rule has no rule after the change to number and keeps the rule after
  the change to email.
\<close>

theorem changeBaseType_filters_rules:
  "modalBaseTypeChange nb f =
     f\<lparr> baseType := nb,
        cft_validationRules := filter (\<lambda>r. spec_applies (rule_type r) nb) (cft_validationRules f) \<rparr>
   \<and> designerBaseTypeChange nb (Some f) =
     Some (f\<lparr> baseType := nb,
        cft_validationRules := filter (\<lambda>r. spec_applies (rule_type r) nb) (cft_validationRules f) \<rparr>)
   \<and> designerBaseTypeChange nb None = None
   \<and> (baseType f = Text \<and> cft_validationRules f = [r] \<and> rule_type r = Regex \<longrightarrow>
        cft_validationRules (modalBaseTypeChange Number f) = [] \<and>
        cft_validationRules (modalBaseTypeChange Email f) = [r] \<and>
        designerBaseTypeChange Number (Some f) = Some (f\<lparr> baseType := Number, cft_validationRules := [] \<rparr>) \<and>
        designerBaseTypeChange Email (Some f) = Some (f\<lparr> baseType := Email \<rparr>))"
  by (auto simp: modalBaseTypeChange_def designerBaseTypeChange_def updateEditingField_def
      applicableRules_spec spec_applies_def)

theorem changeBaseType_filters_rules_witness:
  "baseType zipCode = Text \<and> cft_validationRules zipCode = [zipRule] \<and> rule_type zipRule = Regex
   \<and> cft_validationRules (modalBaseTypeChange Number zipCode) = []
   \<and> cft_validationRules (modalBaseTypeChange Email zipCode) = [zipRule]
   \<and> designerBaseTypeChange Email (Some zipCode) = Some (zipCode\<lparr> baseType := Email \<rparr>)"
proof -
  have h: "baseType zipCode = Text \<and> cft_validationRules zipCode = [zipRule] \<and> rule_type zipRule = Regex"
    by (simp add: zipCode_def zipRule_def)
  with changeBaseType_filters_rules [of Number zipCode zipRule] show ?thesis by blast
qed

section \<open>Deleting a library\<close>

lemma filter_neq_id: "L \<notin> set xs \<Longrightarrow> filter (\<lambda>x. x \<noteq> L) xs = xs"
  by (induction xs) auto

lemma map_option_filter_id:
  "(\<forall>ids. x = Some ids \<longrightarrow> L \<notin> set ids) \<Longrightarrow> map_option (filter (\<lambda>y. y \<noteq> L)) x = x"
  by (cases x) (simp_all add: filter_neq_id)

lemma deleteLibrary_customFields:
  "customFields (handleDeleteLibrary L st) =
     map (\<lambda>f. f\<lparr> libraryIds := map_option (filter (\<lambda>x. x \<noteq> L)) (libraryIds f) \<rparr>) (customFields st)"
proof -
  have "\<And>f :: CustomFieldType. (case libraryIds f of
               Some ids \<Rightarrow> if L \<in> set ids
                           then f\<lparr> libraryIds := Some (filter (\<lambda>libId. libId \<noteq> L) ids) \<rparr> else f
             | None \<Rightarrow> f) = f\<lparr> libraryIds := map_option (filter (\<lambda>x. x \<noteq> L)) (libraryIds f) \<rparr>"
    subgoal for f
      by (cases f) (simp add: filter_neq_id split: option.splits)
    done
  then show ?thesis by (simp add: handleDeleteLibrary_def)
qed

text \<open>
  Claim C4. Deleting a library un-assigns it without deleting field types: after
  \<^verbatim>\<open>handleDeleteLibrary(L)\<close> no custom field type has \<open>L\<close> among its library ids, the
  registry has the same custom field types in the same order (same length, same ids),
  each of them differs from before at most in its library ids, from which \<open>L\<close> is
  filtered out, and a type whose library ids did not contain \<open>L\<close> is unchanged.
\<close>

theorem deleteLibrary_unassigns:
  "(\<forall>f \<in> set (customFields (handleDeleteLibrary L st)).
      \<forall>ids. libraryIds f = Some ids \<longrightarrow> L \<notin> set ids)
   \<and> length (customFields (handleDeleteLibrary L st)) = length (customFields st)
   \<and> map cft_id (customFields (handleDeleteLibrary L st)) = map cft_id (customFields st)
   \<and> (\<forall>i < length (customFields st).
        customFields (handleDeleteLibrary L st) ! i =
          (customFields st ! i)\<lparr> libraryIds :=
             map_option (filter (\<lambda>x. x \<noteq> L)) (libraryIds (customFields st ! i)) \<rparr>)
   \<and> (\<forall>i < length (customFields st).
        (\<forall>ids. libraryIds (customFields st ! i) = Some ids \<longrightarrow> L \<notin> set ids) \<longrightarrow>
        customFields (handleDeleteLibrary L st) ! i = customFields st ! i)"
proof -
  have unchanged: "\<And>f :: CustomFieldType. (\<forall>ids. libraryIds f = Some ids \<longrightarrow> L \<notin> set ids) \<Longrightarrow>
      f\<lparr> libraryIds := map_option (filter (\<lambda>x. x \<noteq> L)) (libraryIds f) \<rparr> = f"
    subgoal for f by (cases f) (simp add: map_option_filter_id)
    done
  show ?thesis
    by (auto simp: deleteLibrary_customFields unchanged comp_def)
qed

theorem deleteLibrary_unassigns_witness:
  "length (customFields exampleApp) = 3
   \<and> libraryIds (customFields exampleApp ! 0) = Some [''addr'', ''contact'']
   \<and> libraryIds (customFields exampleApp ! 2) = None
   \<and> libraryIds (customFields (handleDeleteLibrary ''addr'' exampleApp) ! 0) = Some [''contact'']
   \<and> customFields (handleDeleteLibrary ''addr'' exampleApp) ! 2 = customFields exampleApp ! 2
   \<and> map cft_id (customFields (handleDeleteLibrary ''addr'' exampleApp)) = [''zip'', ''country'', ''age'']"
proof -
  have len: "length (customFields exampleApp) = 3"
    by (simp add: exampleApp_def)
  have l0: "libraryIds (customFields exampleApp ! 0) = Some [''addr'', ''contact'']"
    by (simp add: exampleApp_def zipCode_def)
  have l2: "libraryIds (customFields exampleApp ! 2) = None"
    by (simp add: exampleApp_def age_def)
  have i: "map cft_id (customFields exampleApp) = [''zip'', ''country'', ''age'']"
    by (simp add: exampleApp_def zipCode_def country_def age_def)
  note t = deleteLibrary_unassigns [of "''addr''" exampleApp]
  from t i have a: "map cft_id (customFields (handleDeleteLibrary ''addr'' exampleApp))
      = [''zip'', ''country'', ''age'']"
    by simp
  from t len have "customFields (handleDeleteLibrary ''addr'' exampleApp) ! 0 =
          (customFields exampleApp ! 0)\<lparr> libraryIds :=
             map_option (filter (\<lambda>x. x \<noteq> ''addr'')) (libraryIds (customFields exampleApp ! 0)) \<rparr>"
    by simp
  with l0 have b: "libraryIds (customFields (handleDeleteLibrary ''addr'' exampleApp) ! 0)
      = Some [''contact'']"
    by simp
  from t len l2 have c: "customFields (handleDeleteLibrary ''addr'' exampleApp) ! 2
      = customFields exampleApp ! 2"
    by simp
  from len l0 l2 a b c show ?thesis by simp
qed


section \<open>Child libraries of a deleted library\<close>

lemma libraryMap_None: "libraryMap libs k = None \<longleftrightarrow> k \<notin> set (map lib_id libs)"
  by (simp add: libraryMap_def map_of_eq_None_iff image_image)

lemma libraryMap_Some_id: "libraryMap libs k = Some node \<Longrightarrow> lib_id node = k \<and> node \<in> set libs"
proof -
  assume "libraryMap libs k = Some node"
  then have "(k, node) \<in> set (rev (map (\<lambda>l. (lib_id l, l)) libs))"
    unfolding libraryMap_def by (rule map_of_SomeD)
  then show ?thesis by auto
qed

lemma rootLibraries_member:
  assumes c: "c \<in> set libs" and np: "\<not> hasParent libs c"
  shows "lib_id c \<in> set (map lib_id (rootLibraries libs))"
proof -
  from c have "libraryMap libs (lib_id c) \<noteq> None"
    by (simp add: libraryMap_None)
  then obtain node where n: "libraryMap libs (lib_id c) = Some node" by auto
  then have i: "lib_id node = lib_id c" by (simp add: libraryMap_Some_id)
  from c n np have "node \<in> set (rootLibraries libs)"
    by (auto simp: rootLibraries_def intro!: bexI [of _ c])
  then have "lib_id node \<in> lib_id ` set (rootLibraries libs)" by (rule imageI)
  with i show ?thesis by simp
qed

text \<open>
  Claim C5 says that after \<^verbatim>\<open>deleteLibrary(L)\<close> no remaining library has \<open>parentId = L\<close>.
  The handler only filters the library list. With the library \<open>street\<close> nested in
  \<open>addr\<close>, deleting \<open>addr\<close> leaves \<open>street\<close> with \<open>parentId = addr\<close>.
\<close>

theorem deleteLibrary_reparent_counterexample:
  "fieldLibraries (handleDeleteLibrary ''addr'' exampleApp)
     = [\<lparr> lib_id = ''street'', lib_name = ''Street'', lib_description = None,
          parentId = Some ''addr'' \<rparr>]
   \<and> map parentId (fieldLibraries (handleDeleteLibrary ''addr'' exampleApp)) = [Some ''addr'']"
  by (simp add: handleDeleteLibrary_def exampleApp_def addressLibrary_def streetLibrary_def)

text \<open>
  Claim C5, amended. \<^verbatim>\<open>handleDeleteLibrary(L)\<close> removes the libraries with id \<open>L\<close> and
  keeps every other library as it is, so a child of \<open>L\<close> stays in the list with its
  \<open>parentId\<close> still \<open>L\<close>. No library with id \<open>L\<close> is left, so the library tree does not
  find the parent of such a child and lists the child at root level.
\<close>

theorem deleteLibrary_children_dangling:
  "fieldLibraries (handleDeleteLibrary L st) = filter (\<lambda>l. lib_id l \<noteq> L) (fieldLibraries st)
   \<and> (\<forall>c \<in> set (fieldLibraries st). lib_id c \<noteq> L \<and> parentId c = Some L \<longrightarrow>
         c \<in> set (fieldLibraries (handleDeleteLibrary L st))
         \<and> \<not> hasParent (fieldLibraries (handleDeleteLibrary L st)) c
         \<and> lib_id c \<in> set (map lib_id (rootLibraries (fieldLibraries (handleDeleteLibrary L st)))))"
proof -
  let ?libs = "fieldLibraries (handleDeleteLibrary L st)"
  have f: "?libs = filter (\<lambda>l. lib_id l \<noteq> L) (fieldLibraries st)"
    by (simp add: handleDeleteLibrary_def)
  have gone: "libraryMap ?libs L = None"
    by (auto simp: libraryMap_None f)
  {
    fix c assume c: "c \<in> set (fieldLibraries st)" "lib_id c \<noteq> L" "parentId c = Some L"
    then have m: "c \<in> set ?libs" by (simp add: f)
    from c gone have np: "\<not> hasParent ?libs c" by (simp add: hasParent_def)
    from m np rootLibraries_member [OF m np]
    have "c \<in> set ?libs \<and> \<not> hasParent ?libs c
         \<and> lib_id c \<in> set (map lib_id (rootLibraries ?libs))"
      by blast
  }
  with f show ?thesis by blast
qed

theorem deleteLibrary_children_dangling_witness:
  "streetLibrary \<in> set (fieldLibraries exampleApp) \<and> lib_id streetLibrary \<noteq> ''addr''
   \<and> parentId streetLibrary = Some ''addr''
   \<and> hasParent (fieldLibraries exampleApp) streetLibrary
   \<and> streetLibrary \<in> set (fieldLibraries (handleDeleteLibrary ''addr'' exampleApp))
   \<and> \<not> hasParent (fieldLibraries (handleDeleteLibrary ''addr'' exampleApp)) streetLibrary
   \<and> ''street'' \<in> set (map lib_id (rootLibraries (fieldLibraries (handleDeleteLibrary ''addr'' exampleApp))))"
proof -
  have h: "streetLibrary \<in> set (fieldLibraries exampleApp)" "lib_id streetLibrary \<noteq> ''addr''"
    "parentId streetLibrary = Some ''addr''" "lib_id streetLibrary = ''street''"
    by (simp_all add: exampleApp_def streetLibrary_def)
  have b: "hasParent (fieldLibraries exampleApp) streetLibrary"
    by (simp add: hasParent_def libraryMap_def exampleApp_def streetLibrary_def addressLibrary_def)
  have "\<forall>c \<in> set (fieldLibraries exampleApp). lib_id c \<noteq> ''addr'' \<and> parentId c = Some ''addr'' \<longrightarrow>
         c \<in> set (fieldLibraries (handleDeleteLibrary ''addr'' exampleApp))
         \<and> \<not> hasParent (fieldLibraries (handleDeleteLibrary ''addr'' exampleApp)) c
         \<and> lib_id c \<in> set (map lib_id (rootLibraries (fieldLibraries (handleDeleteLibrary ''addr'' exampleApp))))"
    using deleteLibrary_children_dangling [of "''addr''" exampleApp] by (rule conjunct2)
  from bspec [OF this h(1)] h(2,3)
  have "streetLibrary \<in> set (fieldLibraries (handleDeleteLibrary ''addr'' exampleApp))
         \<and> \<not> hasParent (fieldLibraries (handleDeleteLibrary ''addr'' exampleApp)) streetLibrary
         \<and> lib_id streetLibrary \<in> set (map lib_id (rootLibraries (fieldLibraries (handleDeleteLibrary ''addr'' exampleApp))))"
    by blast
  with h b show ?thesis by simp
qed


section \<open>Binding a field to a custom field type\<close>

text \<open>
  Claim C6 says that binding resets the options to the default list whenever the new
  type is dropdown. The handler keeps the options the field already has: the field
  \<open>colourField\<close>, a dropdown with the options Red and Green, bound to the custom type
  \<open>country\<close> (base type dropdown), still has Red and Green.
\<close>

theorem handleTypeChange_options_counterexample:
  "baseType country = Select
   \<and> map_option options (handleTypeChange (customFields exampleApp) colourField ''country'')
       = Some (Some [''Red'', ''Green''])
   \<and> map_option options (handleTypeChange (customFields exampleApp) colourField ''country'')
       \<noteq> Some (Some defaultOptions)"
  by (simp add: handleTypeChange_def isLibraryField_def libraryFields_def exampleApp_def
      colourField_def zipCode_def country_def age_def defaultOptions_def)

text \<open>
  Claim C6, amended. When the field is a library field and the chosen value is the id of
  a custom field type of the registry, \<^verbatim>\<open>handleTypeChange\<close> calls \<^verbatim>\<open>onUpdate\<close> with a field
  whose type is the base type of the custom type, whose \<open>customFieldTypeId\<close> is its id,
  whose validation rules are the rules of the custom type, and whose options are, when
  the base type is dropdown, the options the field already has, or the default option
  list if it has none, and absent when the base type is not dropdown. The other
  properties of the field are kept, and the builder stores this field by \<^verbatim>\<open>updateField\<close>.
\<close>

theorem handleTypeChange_binds_custom_type:
  "isLibraryField cfs field \<Longrightarrow> find (\<lambda>cf. cft_id cf = v) cfs = Some cf \<Longrightarrow>
     (\<exists>f'. handleTypeChange cfs field v = Some f'
        \<and> field_type f' = baseType cf
        \<and> customFieldTypeId f' = Some (cft_id cf) \<and> cft_id cf = v
        \<and> options f' = (if baseType cf = Select
                         then Some (case options field of Some os \<Rightarrow> os | None \<Rightarrow> defaultOptions)
                         else None)
        \<and> validationRules f' = Some (cft_validationRules cf)
        \<and> field_id f' = field_id field \<and> libraryId f' = libraryId field
        \<and> label f' = label field \<and> placeholder f' = placeholder field
        \<and> required f' = required field \<and> multiple f' = multiple field
        \<and> changeFieldType cfs field v st = updateField f' st)"
proof -
  assume l: "isLibraryField cfs field" and f: "find (\<lambda>cf. cft_id cf = v) cfs = Some cf"
  from f have "cft_id cf = v"
    by (auto simp: find_Some_iff)
  with l f show ?thesis
    by (simp add: handleTypeChange_def changeFieldType_def)
qed

theorem handleTypeChange_binds_custom_type_witness:
  "isLibraryField (customFields exampleApp) colourField
   \<and> find (\<lambda>cf. cft_id cf = ''zip'') (customFields exampleApp) = Some zipCode
   \<and> find (\<lambda>cf. cft_id cf = ''country'') (customFields exampleApp) = Some country
   \<and> handleTypeChange (customFields exampleApp) colourField ''zip''
       = Some (colourField\<lparr> field_type := Text, customFieldTypeId := Some ''zip'',
                 options := None, validationRules := Some [zipRule] \<rparr>)
   \<and> handleTypeChange (customFields exampleApp) colourField ''country''
       = Some (colourField\<lparr> customFieldTypeId := Some ''country'', validationRules := Some [] \<rparr>)"
proof -
  have l: "isLibraryField (customFields exampleApp) colourField"
    by (simp add: isLibraryField_def libraryFields_def exampleApp_def colourField_def
        zipCode_def country_def age_def)
  have z: "find (\<lambda>cf. cft_id cf = ''zip'') (customFields exampleApp) = Some zipCode"
    by (simp add: exampleApp_def zipCode_def)
  have c: "find (\<lambda>cf. cft_id cf = ''country'') (customFields exampleApp) = Some country"
    by (simp add: exampleApp_def zipCode_def country_def)
  from handleTypeChange_binds_custom_type [OF l z]
  obtain f' where a: "handleTypeChange (customFields exampleApp) colourField ''zip'' = Some f'"
    "field_type f' = baseType zipCode" "customFieldTypeId f' = Some (cft_id zipCode)"
    "options f' = (if baseType zipCode = Select
                   then Some (case options colourField of Some os \<Rightarrow> os | None \<Rightarrow> defaultOptions)
                   else None)"
    "validationRules f' = Some (cft_validationRules zipCode)"
    "field_id f' = field_id colourField" "libraryId f' = libraryId colourField"
    "label f' = label colourField" "placeholder f' = placeholder colourField"
    "required f' = required colourField" "multiple f' = multiple colourField"
    by blast
  then have a': "f' = colourField\<lparr> field_type := Text, customFieldTypeId := Some ''zip'',
                 options := None, validationRules := Some [zipRule] \<rparr>"
    by (cases f') (simp add: colourField_def zipCode_def)
  from handleTypeChange_binds_custom_type [OF l c]
  obtain g' where b: "handleTypeChange (customFields exampleApp) colourField ''country'' = Some g'"
    "field_type g' = baseType country" "customFieldTypeId g' = Some (cft_id country)"
    "options g' = (if baseType country = Select
                   then Some (case options colourField of Some os \<Rightarrow> os | None \<Rightarrow> defaultOptions)
                   else None)"
    "validationRules g' = Some (cft_validationRules country)"
    "field_id g' = field_id colourField" "libraryId g' = libraryId colourField"
    "label g' = label colourField" "placeholder g' = placeholder colourField"
    "required g' = required colourField" "multiple g' = multiple colourField"
    by blast
  then have b': "g' = colourField\<lparr> customFieldTypeId := Some ''country'', validationRules := Some [] \<rparr>"
    by (cases g') (simp add: colourField_def country_def)
  from l z c a(1) a' b(1) b' show ?thesis by simp
qed

section \<open>Registry updates and bound fields\<close>









section \<open>Saved versions\<close>





section \<open>Options of a dropdown\<close>

lemma trim_empty_iff: "trim s = [] \<longleftrightarrow> (\<forall>c \<in> set s. isWhiteSpace c)"
proof
  assume "trim s = []"
  then have "\<forall>c \<in> set (dropWhile isWhiteSpace s). isWhiteSpace c"
    by (simp add: trim_def)
  then have "dropWhile isWhiteSpace s = []"
    by (metis hd_dropWhile hd_in_set)
  then show "\<forall>c \<in> set s. isWhiteSpace c"
    by simp
next
  assume "\<forall>c \<in> set s. isWhiteSpace c"
  then have d: "dropWhile isWhiteSpace s = []"
    by simp
  show "trim s = []" unfolding trim_def d by simp
qed

lemma split_on_not_Nil: "split_on c s \<noteq> []"
  by (induction s) (auto split: list.splits)

lemma split_on_no_separator: "l \<in> set (split_on c s) \<Longrightarrow> c \<notin> set l"
proof (induction s arbitrary: l)
  case Nil
  then show ?case by simp
next
  case (Cons x xs)
  show ?case
  proof (cases "x = c")
    case True
    with Cons show ?thesis by auto
  next
    case False
    obtain y ys where s: "split_on c xs = y # ys"
      using split_on_not_Nil [of c xs] by (cases "split_on c xs") auto
    with Cons.prems False have "l = x # y \<or> l \<in> set ys" by simp
    with Cons.IH s False show ?thesis by auto
  qed
qed


text \<open>
  Claim C10. The options textarea of the field editor stores the lines of the text
  whose trimmed value is not empty: every stored option has a non-empty trimmed value,
  that is, at least one character that is not white space, so blank and whitespace-only
  lines are filtered out. The stored list may be empty (the empty text gives the empty
  list). The same holds for the field that the builder stores in the schema.
\<close>

theorem options_no_blank_entries:
  "(\<exists>os. options (optionsOnChange field txt) = Some os
      \<and> os = filter (\<lambda>opt. trim opt \<noteq> '''') (split_on CHR 0x0A txt)
      \<and> (\<forall>opt \<in> set os. trim opt \<noteq> '''' \<and> (\<exists>c \<in> set opt. \<not> isWhiteSpace c)))
   \<and> options (optionsOnChange field '''') = Some []
   \<and> (\<forall>f \<in> set (schema_fields (schema (editOptions field txt st))).
        field_id f = field_id field \<longrightarrow>
        (\<exists>os. options f = Some os \<and> (\<forall>opt \<in> set os. trim opt \<noteq> '''')))"
proof -
  have w: "\<And>opt. trim opt \<noteq> '''' \<Longrightarrow> \<exists>c \<in> set opt. \<not> isWhiteSpace c"
    using trim_empty_iff by blast
  have a: "\<forall>opt \<in> set (filter (\<lambda>opt. trim opt \<noteq> '''') (split_on CHR 0x0A txt)).
             trim opt \<noteq> '''' \<and> (\<exists>c \<in> set opt. \<not> isWhiteSpace c)"
  proof
    fix opt assume "opt \<in> set (filter (\<lambda>opt. trim opt \<noteq> '''') (split_on CHR 0x0A txt))"
    then have "trim opt \<noteq> ''''" by simp
    with w show "trim opt \<noteq> '''' \<and> (\<exists>c \<in> set opt. \<not> isWhiteSpace c)" by blast
  qed
  have o: "options (optionsOnChange field txt)
             = Some (filter (\<lambda>opt. trim opt \<noteq> '''') (split_on CHR 0x0A txt))"
    by (simp add: optionsOnChange_def)
  have b: "options (optionsOnChange field '''') = Some []"
    by (simp add: optionsOnChange_def trim_def)
  have c: "\<forall>f \<in> set (schema_fields (schema (editOptions field txt st))).
        field_id f = field_id field \<longrightarrow>
        (\<exists>os. options f = Some os \<and> (\<forall>opt \<in> set os. trim opt \<noteq> ''''))"
  proof (intro ballI impI)
    fix f assume f: "f \<in> set (schema_fields (schema (editOptions field txt st)))"
      and i: "field_id f = field_id field"
    have fi: "field_id (optionsOnChange field txt) = field_id field"
      by (simp add: optionsOnChange_def)
    from f i fi have "f = optionsOnChange field txt"
      by (auto simp: editOptions_def updateField_def)
    with o a show "\<exists>os. options f = Some os \<and> (\<forall>opt \<in> set os. trim opt \<noteq> '''')"
      by blast
  qed
  from o a b c show ?thesis by blast
qed

theorem options_no_blank_entries_witness:
  "options (optionsOnChange colourField
       (''Red'' @ [CHR 0x0A, CHR 0x0A] @ '' '' @ [CHR 0x09, CHR 0x0A] @ '' Green ''))
     = Some [''Red'', '' Green '']
   \<and> trim ''Red'' \<noteq> '''' \<and> trim '' Green '' \<noteq> ''''
   \<and> options (optionsOnChange colourField ('' '' @ [CHR 0x0A, CHR 0x09])) = Some []"
proof -
  let ?t = "''Red'' @ [CHR 0x0A, CHR 0x0A] @ '' '' @ [CHR 0x09, CHR 0x0A] @ '' Green ''"
  have e: "options (optionsOnChange colourField ?t) = Some [''Red'', '' Green '']"
    by (simp add: optionsOnChange_def trim_def isWhiteSpace_def)
  have e2: "options (optionsOnChange colourField ('' '' @ [CHR 0x0A, CHR 0x09])) = Some []"
    by (simp add: optionsOnChange_def trim_def isWhiteSpace_def)
  from options_no_blank_entries [of colourField ?t]
  obtain os where os: "options (optionsOnChange colourField ?t) = Some os"
    "\<forall>opt \<in> set os. trim opt \<noteq> '''' \<and> (\<exists>c \<in> set opt. \<not> isWhiteSpace c)"
    by blast
  from os(1) e have "os = [''Red'', '' Green '']" by simp
  with os(2) have "trim ''Red'' \<noteq> ''''" "trim '' Green '' \<noteq> ''''"
    by simp_all
  with e e2 show ?thesis by blast
qed

end
